theory Spec2Isabelle
  imports Main
begin

section \<open>Data model\<close>

text \<open>
  Modelled from the spec: the \<open>Article\<close> class (module \<open>article\<close>, imported by
  \<open>summarize.py\<close>) is not among the sources. Its attributes are those listed in the
  data model of the specification; \<open>article_id\<close> is the key the collection is deduplicated
  on, and the listing parser reads it from the \<open>id\<close> attribute of a table row, a string.
\<close>

record article =
  rank :: int
  title :: string
  article_link :: string
  comment_link :: string
  article_id :: string
  score :: int
  user :: string
  datestring :: string
  generated_article_summary :: string
  generated_comment_summary :: string

text \<open>The exceptions of Python that the modelled functions can raise.\<close>

datatype error =
  IndexError
  | AttributeError
  | KeyError
  | TypeError
  | OverflowError
  | RuntimeError string

section \<open>Removing an article by its id\<close>

text \<open>
  \<open>remove_article_by_id\<close> enumerates the collection and, at the first article whose id
  matches, deletes the element at that index and returns \<open>True\<close>; when the loop ends
  without a match it returns \<open>False\<close>. The loop is \<open>find_article_index\<close> (the third
  argument is the running index of \<open>enumerate\<close>), the statement
  \<open>del article_collection[index]\<close> is \<open>del_at\<close>. The collection is mutated in place, so
  the model returns it next to the boolean.
\<close>

fun find_article_index :: "article list \<Rightarrow> string \<Rightarrow> nat \<Rightarrow> nat option" where
  "find_article_index [] aid index = None"
| "find_article_index (a # rest) aid index =
     (if article_id a = aid then Some index else find_article_index rest aid (Suc index))"

definition del_at :: "'a list \<Rightarrow> nat \<Rightarrow> 'a list" where
  "del_at xs index = take index xs @ drop (Suc index) xs"

definition remove_article_by_id :: "article list \<Rightarrow> string \<Rightarrow> bool \<times> article list" where
  "remove_article_by_id article_collection aid =
     (case find_article_index article_collection aid 0 of
        Some index \<Rightarrow> (True, del_at article_collection index)
      | None \<Rightarrow> (False, article_collection))"

section \<open>Merging newly fetched articles\<close>

text \<open>
  The body of the loop over \<open>articles_to_load\<close> in the main script: the return value of
  \<open>remove_article_by_id\<close> is dropped, then the new article is appended.
\<close>

definition merge_step :: "article list \<Rightarrow> article \<Rightarrow> article list" where
  "merge_step articles a = snd (remove_article_by_id articles (article_id a)) @ [a]"

definition merge_articles :: "article list \<Rightarrow> article list \<Rightarrow> article list" where
  "merge_articles articles articles_to_load = foldl merge_step articles articles_to_load"

section \<open>Trimming the collection\<close>

text \<open>
  \<open>while len(articles) > max_size: articles.pop(0)\<close>. \<open>max_size\<close> is a Python integer;
  \<open>pop(0)\<close> on an empty list raises \<open>IndexError\<close>, which only a negative \<open>max_size\<close>
  can reach.
\<close>

fun trim_article_collection :: "article list \<Rightarrow> int \<Rightarrow> error + article list" where
  "trim_article_collection [] max_size =
     (if int (length ([] :: article list)) > max_size then Inl IndexError else Inr [])"
| "trim_article_collection (a # rest) max_size =
     (if int (length (a # rest)) > max_size then trim_article_collection rest max_size
      else Inr (a # rest))"

text \<open>Abbreviations used in the statements: the ids of a list of articles, and the
  articles of a list that carry a given id.\<close>

definition ids :: "article list \<Rightarrow> string list" where
  "ids xs = map article_id xs"

definition with_id :: "string \<Rightarrow> article list \<Rightarrow> article list" where
  "with_id x xs = filter (\<lambda>a. article_id a = x) xs"

text \<open>\<open>latest\<close> is the batch with only the last article of every id kept: what a batch
  leaves at the end of the collection.\<close>

fun latest :: "article list \<Rightarrow> article list" where
  "latest [] = []"
| "latest (r # rs) = (if article_id r \<in> set (ids rs) then latest rs else r # latest rs)"

text \<open>The \<open>n\<close> most recent articles of a collection: its last \<open>n\<close> elements, in their
  order.\<close>

definition most_recent :: "nat \<Rightarrow> 'a list \<Rightarrow> 'a list" where
  "most_recent n xs = drop (length xs - n) xs"

section \<open>Resolving the date\<close>

text \<open>
  \<open>settings\<close> is the dictionary that \<open>json.load\<close> returns for \<open>settings.json\<close>: a map
  from option names to JSON values. Numbers are the integers of JSON; a number written
  with a fraction or an exponent is a float in Python and has no counterpart here.
  \<open>truthy\<close> is the truth value Python gives a value in a condition.
\<close>

datatype json =
  JNull
  | JBool bool
  | JNumber int
  | JString string
  | JArray "json list"
  | JObject "(string \<times> json) list"

fun truthy :: "json \<Rightarrow> bool" where
  "truthy JNull = False"
| "truthy (JBool b) = b"
| "truthy (JNumber i) = (i \<noteq> 0)"
| "truthy (JString s) = (s \<noteq> [])"
| "truthy (JArray xs) = (xs \<noteq> [])"
| "truthy (JObject kvs) = (kvs \<noteq> [])"

text \<open>
  The value of \<open>datetime.now()\<close>: a naive local date and time of the proleptic Gregorian
  calendar, years 1 to 9999.
\<close>

record datetime =
  year :: nat
  month :: nat
  day :: nat
  hour :: nat
  minute :: nat
  second :: nat
  microsecond :: nat

definition is_leap :: "nat \<Rightarrow> bool" where
  "is_leap y = (y mod 4 = 0 \<and> (y mod 100 \<noteq> 0 \<or> y mod 400 = 0))"

definition days_in_month :: "nat \<Rightarrow> nat \<Rightarrow> nat" where
  "days_in_month y m =
     (if m = 2 then (if is_leap y then 29 else 28)
      else if m = 4 \<or> m = 6 \<or> m = 9 \<or> m = 11 then 30 else 31)"

definition valid_datetime :: "datetime \<Rightarrow> bool" where
  "valid_datetime d =
     (1 \<le> year d \<and> year d \<le> 9999 \<and> 1 \<le> month d \<and> month d \<le> 12 \<and>
      1 \<le> day d \<and> day d \<le> days_in_month (year d) (month d) \<and>
      hour d < 24 \<and> minute d < 60 \<and> second d < 60 \<and> microsecond d < 1000000)"

text \<open>
  \<open>now - timedelta(1)\<close>: one day back, the time of day unchanged; before the first day
  of year 1 there is no date and the subtraction raises \<open>OverflowError\<close>.
\<close>

definition minus_one_day :: "datetime \<Rightarrow> error + datetime" where
  "minus_one_day d =
     (if 1 < day d then Inr (d\<lparr>day := day d - 1\<rparr>)
      else if 1 < month d then
        Inr (d\<lparr>month := month d - 1, day := days_in_month (year d) (month d - 1)\<rparr>)
      else if 1 < year d then Inr (d\<lparr>year := year d - 1, month := 12, day := 31\<rparr>)
      else Inl OverflowError)"

text \<open>
  \<open>strftime("%Y-%m-%d")\<close>: the year as four decimal digits, month and day as two. (For
  years below 1000 the C library decides whether \<open>%Y\<close> pads with zeros; the statements
  below are about later years.)
\<close>

definition digit :: "nat \<Rightarrow> char" where
  "digit n = ''0123456789'' ! n"

definition pad2 :: "nat \<Rightarrow> string" where
  "pad2 n = [digit (n div 10 mod 10), digit (n mod 10)]"

definition pad4 :: "nat \<Rightarrow> string" where
  "pad4 n = [digit (n div 1000 mod 10), digit (n div 100 mod 10), digit (n div 10 mod 10),
     digit (n mod 10)]"

definition strftime_Ymd :: "datetime \<Rightarrow> string" where
  "strftime_Ymd d = pad4 (year d) @ ''-'' @ pad2 (month d) @ ''-'' @ pad2 (day d)"

text \<open>
  \<open>get_date\<close> reads the global \<open>settings\<close> and the clock; both are arguments here. The
  condition is the source's: the key is present, its value is truthy, and the value is
  not the empty string. The override is returned as it is stored.
\<close>

definition get_date :: "(string \<rightharpoonup> json) \<Rightarrow> datetime \<Rightarrow> error + json" where
  "get_date settings now =
     (if (case settings ''override_date'' of None \<Rightarrow> False
          | Some v \<Rightarrow> truthy v \<and> v \<noteq> JString [])
      then Inr (the (settings ''override_date''))
      else (case minus_one_day now of Inl e \<Rightarrow> Inl e
            | Inr d \<Rightarrow> Inr (JString (strftime_Ymd d))))"

text \<open>
  What "yesterday" and "formatted YYYY-MM-DD" mean, independently of the functions above:
  \<open>toordinal\<close> numbers the days of the calendar from 0001-01-01 (day 1), and
  \<open>formatted_Ymd s d\<close> says that \<open>s\<close> has ten characters, hyphens in the fifth and eighth
  place and digits elsewhere, and that the three groups of digits read as decimal numbers
  are the year, month and day of \<open>d\<close>.
\<close>

definition days_before_year :: "nat \<Rightarrow> nat" where
  "days_before_year y = (y - 1) * 365 + (y - 1) div 4 - (y - 1) div 100 + (y - 1) div 400"

fun days_before_month :: "nat \<Rightarrow> nat \<Rightarrow> nat" where
  "days_before_month y 0 = 0"
| "days_before_month y (Suc m) =
     (if m = 0 then 0 else days_before_month y m + days_in_month y m)"

definition toordinal :: "datetime \<Rightarrow> nat" where
  "toordinal d = days_before_year (year d) + days_before_month (year d) (month d) + day d"

definition is_digit :: "char \<Rightarrow> bool" where
  "is_digit c = (c \<in> set ''0123456789'')"

definition digit_value :: "char \<Rightarrow> nat" where
  "digit_value c = of_char c - 48"

definition decimal :: "string \<Rightarrow> nat" where
  "decimal s = foldl (\<lambda>acc c. 10 * acc + digit_value c) 0 s"

definition formatted_Ymd :: "string \<Rightarrow> datetime \<Rightarrow> bool" where
  "formatted_Ymd s d =
     (length s = 10 \<and> s ! 4 = CHR ''-'' \<and> s ! 7 = CHR ''-'' \<and>
      list_all is_digit (take 4 s @ take 2 (drop 5 s) @ drop 8 s) \<and>
      decimal (take 4 s) = year d \<and> decimal (take 2 (drop 5 s)) = month d \<and>
      decimal (drop 8 s) = day d)"

section \<open>Parsing the listing page\<close>

text \<open>
  The page is fetched and parsed by libraries; what \<open>return_articles\<close> sees of it is the
  list of table rows of class \<open>athing\<close>, in document order, and for every row the results
  of the lookups it makes: a lookup that finds nothing yields \<open>None\<close>, on which the next
  attribute access or subscript raises. \<open>score_span\<close>, \<open>hnuser_anchor\<close> and \<open>age_span\<close> are
  looked up in the row's next sibling; \<open>age_span\<close> is the \<open>title\<close> attribute of the span
  of class \<open>age\<close>, when the span is there. The next sibling is taken to be a tag or
  absent: a text node there, on which the lookup raises \<open>TypeError\<close>, is not
  represented.
\<close>

record anchor =
  anchor_text :: string
  href :: "string option"

record listing_row =
  rank_span :: "string option"
  titleline_anchor :: "anchor option"
  row_id :: "string option"
  score_span :: "string option"
  hnuser_anchor :: "string option"
  age_span :: "string option option"

text \<open>\<open>str.strip()\<close>, \<open>str.replace(".", "")\<close> and \<open>str.split(" ")[0]\<close> on ASCII text
  (the white space of Unicode beyond ASCII, which \<open>strip\<close> removes too, is not covered).\<close>

definition is_space :: "char \<Rightarrow> bool" where
  "is_space c = ((of_char c :: nat) \<in> {9, 10, 11, 12, 13, 28, 29, 30, 31, 32})"

definition strip :: "string \<Rightarrow> string" where
  "strip s = rev (dropWhile is_space (rev (dropWhile is_space s)))"

definition remove_dots :: "string \<Rightarrow> string" where
  "remove_dots s = filter (\<lambda>c. c \<noteq> CHR ''.'') s"

definition first_field :: "string \<Rightarrow> string" where
  "first_field s = takeWhile (\<lambda>c. c \<noteq> CHR '' '') s"

text \<open>
  The constructor of \<open>Article\<close> is not among the sources; it is an argument of the model,
  called with the arguments in the order of the source: rank, title, article link, score,
  user, article id, date string, \<open>generate_summaries\<close>.
\<close>

type_synonym article_constructor =
  "string \<Rightarrow> string \<Rightarrow> string \<Rightarrow> string \<Rightarrow> string \<Rightarrow> string \<Rightarrow> string \<Rightarrow> bool \<Rightarrow> article"

definition parse_row ::
  "listing_row \<Rightarrow> error + (string \<times> string \<times> string \<times> string \<times> string \<times> string \<times> string)" where
  "parse_row row =
     (case rank_span row of None \<Rightarrow> Inl AttributeError | Some rank_text \<Rightarrow>
      case titleline_anchor row of None \<Rightarrow> Inl AttributeError | Some a \<Rightarrow>
      case href a of None \<Rightarrow> Inl KeyError | Some link \<Rightarrow>
      case row_id row of None \<Rightarrow> Inl KeyError | Some aid \<Rightarrow>
      case score_span row of None \<Rightarrow> Inl AttributeError | Some score_text \<Rightarrow>
      case hnuser_anchor row of None \<Rightarrow> Inl AttributeError | Some user_text \<Rightarrow>
      case age_span row of None \<Rightarrow> Inl TypeError | Some None \<Rightarrow> Inl KeyError
      | Some (Some age_title) \<Rightarrow>
          Inr (remove_dots (strip rank_text), strip (anchor_text a), link, strip score_text,
               strip user_text, aid, first_field age_title))"

text \<open>
  The loop over the rows: the article is appended and counted first, and only then is the
  count compared with \<open>max_articles\<close>.
\<close>

fun parse_rows ::
  "article_constructor \<Rightarrow> bool \<Rightarrow> int \<Rightarrow> listing_row list \<Rightarrow> article list \<Rightarrow> int \<Rightarrow>
   error + article list" where
  "parse_rows mk generate_summaries max_articles [] articles article_count = Inr articles"
| "parse_rows mk generate_summaries max_articles (row # rest) articles article_count =
     (case parse_row row of
        Inl e \<Rightarrow> Inl e
      | Inr (rnk, ttl, link, scr, usr, aid, ds) \<Rightarrow>
          (let a = mk rnk ttl link scr usr aid ds generate_summaries;
               articles' = articles @ [a];
               article_count' = article_count + 1
           in if article_count' \<ge> max_articles then Inr articles'
              else parse_rows mk generate_summaries max_articles rest articles' article_count'))"

text \<open>
  \<open>fetch_soup\<close> turns a failed request into a \<open>RuntimeError\<close>; \<open>http_get\<close> stands for the
  request and the parser, and answers with the rows of the page or with the text of the
  request's exception.
\<close>

definition fetch_soup ::
  "(string \<Rightarrow> string + listing_row list) \<Rightarrow> string \<Rightarrow> error + listing_row list" where
  "fetch_soup http_get url =
     (case http_get url of
        Inl e \<Rightarrow> Inl (RuntimeError (''Error fetching articles from '' @ url @ '': '' @ e))
      | Inr soup \<Rightarrow> Inr soup)"

definition return_articles ::
  "string \<Rightarrow> (string \<Rightarrow> string + listing_row list) \<Rightarrow> article_constructor \<Rightarrow>
   string \<Rightarrow> bool \<Rightarrow> int \<Rightarrow> error + article list" where
  "return_articles articles_url http_get mk date generate_summaries max_articles =
     (case fetch_soup http_get (articles_url @ date) of
        Inl e \<Rightarrow> Inl e
      | Inr athing_rows \<Rightarrow> parse_rows mk generate_summaries max_articles athing_rows [] 0)"

section \<open>Example data\<close>

definition example_article :: "string \<Rightarrow> int \<Rightarrow> article" where
  "example_article aid sc =
     \<lparr>rank = 1, title = ''A title'', article_link = ''https://example.org/'',
      comment_link = ''item?id='' @ aid, article_id = aid, score = sc, user = ''pg'',
      datestring = ''2024-01-15T10:00:00'', generated_article_summary = [],
      generated_comment_summary = []\<rparr>"

definition example_constructor :: article_constructor where
  "example_constructor rnk ttl link scr usr aid ds generate_summaries =
     \<lparr>rank = int (decimal rnk), title = ttl, article_link = link,
      comment_link = ''item?id='' @ aid, article_id = aid,
      score = int (decimal (takeWhile is_digit scr)), user = usr, datestring = ds,
      generated_article_summary = [], generated_comment_summary = []\<rparr>"

definition example_row :: "string \<Rightarrow> listing_row" where
  "example_row aid =
     \<lparr>rank_span = Some ''1.'',
      titleline_anchor = Some \<lparr>anchor_text = ''A title'', href = Some ''https://example.org/''\<rparr>,
      row_id = Some aid, score_span = Some ''5 points'', hnuser_anchor = Some ''pg'',
      age_span = Some (Some ''2024-01-15T10:00:00 1705312800'')\<rparr>"

definition example_now :: datetime where
  "example_now = \<lparr>year = 2024, month = 3, day = 1, hour = 8, minute = 30, second = 0,
     microsecond = 0\<rparr>"

section \<open>Properties of removal\<close>

lemma find_article_index_shift:
  "find_article_index xs x (Suc k) = map_option Suc (find_article_index xs x k)"
  by (induction xs arbitrary: k) auto

lemma del_at_Cons_Suc: "del_at (a # xs) (Suc i) = a # del_at xs i"
  by (simp add: del_at_def)

lemma del_at_Cons_0: "del_at (a # xs) 0 = xs"
  by (simp add: del_at_def)

lemma remove_article_by_id_Nil: "remove_article_by_id [] x = (False, [])"
  by (simp add: remove_article_by_id_def)

lemma remove_article_by_id_Cons:
  "remove_article_by_id (a # xs) x =
     (if article_id a = x then (True, xs)
      else (fst (remove_article_by_id xs x), a # snd (remove_article_by_id xs x)))"
  by (auto simp: remove_article_by_id_def find_article_index_shift del_at_Cons_Suc
      del_at_Cons_0 split: option.splits)

lemma remove_fst_iff: "fst (remove_article_by_id xs x) \<longleftrightarrow> x \<in> set (ids xs)"
  by (induction xs) (auto simp: remove_article_by_id_Nil remove_article_by_id_Cons ids_def)

lemma remove_miss: "x \<notin> set (ids xs) \<Longrightarrow> remove_article_by_id xs x = (False, xs)"
  by (induction xs) (auto simp: remove_article_by_id_Nil remove_article_by_id_Cons ids_def)

lemma remove_hit:
  "x \<in> set (ids xs) \<Longrightarrow>
   \<exists>pre a post. xs = pre @ a # post \<and> article_id a = x \<and> x \<notin> set (ids pre) \<and>
     remove_article_by_id xs x = (True, pre @ post)"
proof (induction xs)
  case Nil
  then show ?case by (simp add: ids_def)
next
  case (Cons b xs)
  show ?case
  proof (cases "article_id b = x")
    case True
    then have "b # xs = [] @ b # xs \<and> article_id b = x \<and> x \<notin> set (ids []) \<and>
        remove_article_by_id (b # xs) x = (True, [] @ xs)"
      by (simp add: remove_article_by_id_Cons ids_def)
    then show ?thesis by blast
  next
    case False
    with Cons.prems have "x \<in> set (ids xs)" by (simp add: ids_def)
    from Cons.IH [OF this] obtain pre a post where
      h: "xs = pre @ a # post" "article_id a = x" "x \<notin> set (ids pre)"
         "remove_article_by_id xs x = (True, pre @ post)"
      by blast
    from h False have "b # xs = (b # pre) @ a # post \<and> article_id a = x \<and>
        x \<notin> set (ids (b # pre)) \<and>
        remove_article_by_id (b # xs) x = (True, (b # pre) @ post)"
      by (auto simp: remove_article_by_id_Cons ids_def)
    then show ?thesis by blast
  qed
qed

lemma remove_snd_distinct:
  "distinct (ids xs) \<Longrightarrow>
   snd (remove_article_by_id xs x) = filter (\<lambda>a. article_id a \<noteq> x) xs"
proof (induction xs)
  case Nil
  show ?case by (simp add: remove_article_by_id_Nil)
next
  case (Cons b xs)
  show ?case
  proof (cases "article_id b = x")
    case True
    with Cons.prems have "x \<notin> article_id ` set xs" by (simp add: ids_def)
    then have "filter (\<lambda>a. article_id a \<noteq> x) xs = xs"
      by (auto intro: filter_True)
    with True show ?thesis by (simp add: remove_article_by_id_Cons)
  next
    case False
    with Cons show ?thesis by (simp add: remove_article_by_id_Cons ids_def)
  qed
qed

lemma with_id_remove:
  "with_id y (snd (remove_article_by_id xs x)) =
     (if y = x then tl (with_id y xs) else with_id y xs)"
  by (induction xs) (auto simp: remove_article_by_id_Nil remove_article_by_id_Cons with_id_def)

section \<open>Properties of the merge\<close>

lemma merge_articles_Nil: "merge_articles xs [] = xs"
  by (simp add: merge_articles_def)

lemma merge_articles_Cons: "merge_articles xs (r # rs) = merge_articles (merge_step xs r) rs"
  by (simp add: merge_articles_def)

lemma merge_articles_snoc: "merge_articles xs (rs @ [r]) = merge_step (merge_articles xs rs) r"
  by (simp add: merge_articles_def)

lemma with_id_append: "with_id y (xs @ ys) = with_id y xs @ with_id y ys"
  by (simp add: with_id_def)

lemma with_id_single: "with_id y [r] = (if article_id r = y then [r] else [])"
  by (simp add: with_id_def)

lemma with_id_merge_step:
  "with_id y (merge_step xs r) =
     (if article_id r = y then tl (with_id y xs) @ [r] else with_id y xs)"
  by (simp add: merge_step_def with_id_append with_id_single with_id_remove)

lemma with_id_merge_other:
  "y \<notin> set (ids rs) \<Longrightarrow> with_id y (merge_articles xs rs) = with_id y xs"
  by (induction rs arbitrary: xs)
     (auto simp: merge_articles_Nil merge_articles_Cons with_id_merge_step ids_def)

lemma with_id_empty_iff: "with_id y rs = [] \<longleftrightarrow> y \<notin> set (ids rs)"
  by (auto simp: with_id_def ids_def filter_empty_conv)

text \<open>An id that the collection holds at most once and that the batch mentions is, after
  the merge, held exactly once, by the last article of the batch with that id.\<close>

lemma with_id_merge_latest:
  "length (with_id y xs) \<le> 1 \<Longrightarrow> y \<in> set (ids rs) \<Longrightarrow>
   with_id y (merge_articles xs rs) = [last (with_id y rs)]"
proof (induction rs arbitrary: xs)
  case Nil
  then show ?case by (simp add: ids_def)
next
  case (Cons r rs)
  show ?case
  proof (cases "article_id r = y")
    case True
    from Cons.prems(1) have tl_nil: "tl (with_id y xs) = []"
      by (cases "with_id y xs") auto
    have step: "with_id y (merge_step xs r) = [r]"
      using True tl_nil by (simp add: with_id_merge_step)
    show ?thesis
    proof (cases "y \<in> set (ids rs)")
      case True
      have "with_id y (merge_articles (merge_step xs r) rs) = [last (with_id y rs)]"
        using Cons.IH [of "merge_step xs r"] True by (simp add: step)
      moreover from True have "with_id y rs \<noteq> []" by (simp add: with_id_empty_iff)
      ultimately show ?thesis
        by (simp add: merge_articles_Cons with_id_def)
    next
      case False
      then have "with_id y rs = []" by (simp add: with_id_empty_iff)
      with False step \<open>article_id r = y\<close> show ?thesis
        by (simp add: merge_articles_Cons with_id_merge_other) (simp add: with_id_def)
    qed
  next
    case False
    with Cons.prems(2) have in_rs: "y \<in> set (ids rs)" by (auto simp: ids_def)
    from False have same: "with_id y (merge_step xs r) = with_id y xs"
      by (simp add: with_id_merge_step)
    have "with_id y (merge_articles (merge_step xs r) rs) = [last (with_id y rs)]"
      using Cons.IH [of "merge_step xs r"] Cons.prems(1) in_rs by (simp add: same)
    with False show ?thesis
      by (simp add: merge_articles_Cons with_id_def)
  qed
qed

lemma last_merge_articles: "rs \<noteq> [] \<Longrightarrow> last (merge_articles xs rs) = last rs"
  by (cases rs rule: rev_cases) (simp_all add: merge_articles_snoc merge_step_def)

lemma distinct_ids_with_id:
  "distinct (ids xs) \<Longrightarrow> length (with_id y xs) = (if y \<in> set (ids xs) then 1 else 0)"
  by (induction xs) (auto simp: ids_def with_id_def filter_empty_conv)

lemma set_latest_subset: "set (latest rs) \<subseteq> set rs"
  by (induction rs) auto

lemma ids_latest: "set (ids (latest rs)) = set (ids rs)"
  by (induction rs) (auto simp: ids_def)

lemma distinct_ids_latest: "distinct (ids (latest rs))"
proof (induction rs)
  case Nil
  show ?case by (simp add: ids_def)
next
  case (Cons r rs)
  have "article_id r \<notin> set (ids rs) \<Longrightarrow> article_id r \<notin> set (ids (latest rs))"
    by (simp add: ids_latest)
  with Cons show ?case by (auto simp: ids_def)
qed

lemma latest_snoc:
  "latest (rs @ [r]) = filter (\<lambda>a. article_id a \<noteq> article_id r) (latest rs) @ [r]"
proof (induction rs)
  case Nil
  show ?case by (simp add: ids_def)
next
  case (Cons q rs)
  then show ?case by (auto simp: ids_def)
qed

lemma latest_remdups: "inj_on article_id (set rs) \<Longrightarrow> latest rs = remdups rs"
proof (induction rs)
  case Nil
  show ?case by simp
next
  case (Cons r rs)
  from Cons.prems have inj: "inj_on article_id (set rs)" by (simp add: inj_on_def)
  have "article_id r \<in> set (ids rs) \<longleftrightarrow> r \<in> set rs"
  proof
    assume "article_id r \<in> set (ids rs)"
    then obtain q where q: "q \<in> set rs" "article_id q = article_id r"
      by (auto simp: ids_def)
    from inj_onD [OF Cons.prems, of q r] q have "q = r" by simp
    with q(1) show "r \<in> set rs" by simp
  next
    assume "r \<in> set rs"
    then show "article_id r \<in> set (ids rs)" by (simp add: ids_def)
  qed
  with Cons.IH [OF inj] show ?case by simp
qed

lemma merge_step_distinct:
  "distinct (ids xs) \<Longrightarrow>
   merge_step xs r = filter (\<lambda>a. article_id a \<noteq> article_id r) xs @ [r]"
  by (simp add: merge_step_def remove_snd_distinct)

lemma distinct_ids_merge_step:
  assumes "distinct (ids xs)"
  shows "distinct (ids (merge_step xs r))"
proof -
  have "distinct (map article_id (filter (\<lambda>a. article_id a \<noteq> article_id r) xs))"
    using assms unfolding ids_def by (rule distinct_map_filter)
  then show ?thesis
    by (auto simp: merge_step_distinct [OF assms] ids_def)
qed

lemma distinct_ids_merge_articles:
  "distinct (ids xs) \<Longrightarrow> distinct (ids (merge_articles xs rs))"
  by (induction rs arbitrary: xs)
     (simp_all add: merge_articles_Nil merge_articles_Cons distinct_ids_merge_step)

text \<open>The shape of the merged collection when the ids of the collection are pairwise
  distinct: the articles whose id the batch does not mention, in their old order,
  followed by the latest article of every id of the batch.\<close>

lemma merge_articles_shape:
  "distinct (ids xs) \<Longrightarrow>
   merge_articles xs rs = filter (\<lambda>a. article_id a \<notin> set (ids rs)) xs @ latest rs"
proof (induction rs rule: rev_induct)
  case Nil
  show ?case by (simp add: merge_articles_Nil ids_def)
next
  case (snoc r rs)
  have d: "distinct (ids (merge_articles xs rs))"
    using snoc.prems by (rule distinct_ids_merge_articles)
  have "merge_articles xs (rs @ [r]) =
      filter (\<lambda>a. article_id a \<noteq> article_id r) (merge_articles xs rs) @ [r]"
    by (simp add: merge_articles_snoc merge_step_distinct [OF d])
  also have "\<dots> = filter (\<lambda>a. article_id a \<noteq> article_id r)
      (filter (\<lambda>a. article_id a \<notin> set (ids rs)) xs @ latest rs) @ [r]"
    by (simp add: snoc.IH [OF snoc.prems])
  also have "\<dots> = filter (\<lambda>a. article_id a \<notin> set (ids (rs @ [r]))) xs @ latest (rs @ [r])"
    by (auto simp: latest_snoc ids_def intro: filter_cong)
  finally show ?case .
qed

section \<open>Properties of trimming\<close>

lemma trim_nonneg:
  "0 \<le> max_size \<Longrightarrow>
   trim_article_collection xs max_size = Inr (drop (length xs - nat max_size) xs)"
proof (induction xs)
  case Nil
  then show ?case by simp
next
  case (Cons a xs)
  show ?case
  proof (cases "int (length (a # xs)) > max_size")
    case True
    with Cons.prems have "length (a # xs) - nat max_size = Suc (length xs - nat max_size)"
      by auto
    with True Cons show ?thesis by simp
  next
    case False
    then have "length (a # xs) - nat max_size = 0" by auto
    with False show ?thesis by simp
  qed
qed

lemma trim_is_drop:
  "trim_article_collection xs max_size = Inr ys \<Longrightarrow> \<exists>k. ys = drop k xs"
proof (induction xs)
  case Nil
  then show ?case by (simp split: if_splits)
next
  case (Cons a xs)
  show ?case
  proof (cases "int (length (a # xs)) > max_size")
    case True
    with Cons.prems have "trim_article_collection xs max_size = Inr ys" by simp
    from Cons.IH [OF this] obtain k where "ys = drop k xs" ..
    then have "ys = drop (Suc k) (a # xs)" by simp
    then show ?thesis ..
  next
    case False
    with Cons.prems have "ys = drop 0 (a # xs)" by simp
    then show ?thesis ..
  qed
qed


section \<open>Properties of the calendar and of the date format\<close>

lemma lt10_cases: "n < 10 \<Longrightarrow> n \<in> {0, 1, 2, 3, 4, 5, 6, 7, 8, 9 :: nat}"
  by (simp; arith)

lemma digit_value_digit: "n < 10 \<Longrightarrow> digit_value (digit n) = n"
  using lt10_cases [of n] by (auto simp: digit_value_def digit_def)

lemma is_digit_digit: "n < 10 \<Longrightarrow> is_digit (digit n)"
  using lt10_cases [of n] by (auto simp: is_digit_def digit_def)

lemma decimal_pad2: "n < 100 \<Longrightarrow> decimal (pad2 n) = n"
  by (simp add: decimal_def pad2_def digit_value_digit)


lemma decimal_pad4: 
  assumes "n < 10000" 
  shows "decimal (pad4 n) = n"
proof -
  have b: "n div 1000 < 10" using assms by simp
  have a: "n div 1000 mod 10 = n div 1000" using b by simp
  have d1: "n div 10 div 10 = n div 100" by (simp add: div_mult2_eq [symmetric])
  have d2: "n div 100 div 10 = n div 1000" by (simp add: div_mult2_eq [symmetric])
  have e0: "n = 10 * (n div 10) + n mod 10" by simp
  have e1: "n div 10 = 10 * (n div 100) + n div 10 mod 10"
    using div_mult_mod_eq [of "n div 10" 10] by (simp add: d1)
  have e2: "n div 100 = 10 * (n div 1000) + n div 100 mod 10"
    using div_mult_mod_eq [of "n div 100" 10] by (simp add: d2)
  have "decimal (pad4 n) =
      10 * (10 * (10 * (n div 1000) + n div 100 mod 10) + n div 10 mod 10) + n mod 10"
    by (simp add: decimal_def pad4_def digit_value_digit a b)
  also have "\<dots> = n" using e0 e1 e2 by simp
  finally show ?thesis .
qed


lemma days_before_year_Suc:
  assumes "0 < z"
  shows "days_before_year (Suc z) = days_before_year z + 365 + (if is_leap z then 1 else 0)"
proof -
  from assms obtain w where z: "z = Suc w" by (cases z) auto
  define a where "a = w div 4"
  define b where "b = w div 100"
  define c where "c = w div 400"
  have ba: "b \<le> a" unfolding a_def b_def by (rule div_le_mono2) simp_all
  have m100: "Suc w mod 100 = 0 \<Longrightarrow> Suc w mod 4 = 0"
  proof -
    assume "Suc w mod 100 = 0"
    then have "100 dvd Suc w" by (simp add: mod_eq_0_iff_dvd)
    moreover have "(4::nat) dvd 100" by simp
    ultimately have "4 dvd Suc w" by (rule dvd_trans [rotated])
    then show ?thesis by (simp add: mod_eq_0_iff_dvd)
  qed
  have m400: "Suc w mod 400 = 0 \<Longrightarrow> Suc w mod 100 = 0"
  proof -
    assume "Suc w mod 400 = 0"
    then have "400 dvd Suc w" by (simp add: mod_eq_0_iff_dvd)
    moreover have "(100::nat) dvd 400" by simp
    ultimately have "100 dvd Suc w" by (rule dvd_trans [rotated])
    then show ?thesis by (simp add: mod_eq_0_iff_dvd)
  qed
  have d4: "Suc w div 4 = (if Suc w mod 4 = 0 then Suc a else a)"
    unfolding a_def by (rule div_Suc)
  have d100: "Suc w div 100 = (if Suc w mod 100 = 0 then Suc b else b)"
    unfolding b_def by (rule div_Suc)
  have d400: "Suc w div 400 = (if Suc w mod 400 = 0 then Suc c else c)"
    unfolding c_def by (rule div_Suc)
  have lhs: "days_before_year (Suc (Suc w)) = Suc w * 365 + Suc w div 4 - Suc w div 100 + Suc w div 400"
    by (simp add: days_before_year_def)
  have rhs: "days_before_year (Suc w) = w * 365 + a - b + c"
    by (simp add: days_before_year_def a_def b_def c_def)
  have leap: "is_leap (Suc w) = (Suc w mod 4 = 0 \<and> (Suc w mod 100 \<noteq> 0 \<or> Suc w mod 400 = 0))"
    by (simp add: is_leap_def)
  have "days_before_year (Suc (Suc w)) =
      days_before_year (Suc w) + 365 + (if is_leap (Suc w) then 1 else 0)"
    unfolding lhs rhs d4 d100 d400 leap
    using ba m100 m400 by auto
  then show ?thesis by (simp add: z)
qed


lemma days_before_month_1: "days_before_month y 1 = 0"
  by simp

lemma days_before_month_step:
  "1 < m \<Longrightarrow> days_before_month y m = days_before_month y (m - 1) + days_in_month y (m - 1)"
  by (cases m) auto

lemma days_before_month_12: "days_before_month y 12 = 334 + (if is_leap y then 1 else 0)"
  by (simp add: days_before_month_step days_before_month_1 days_in_month_def)

lemma days_in_month_pos: "1 \<le> days_in_month y m"
  by (simp add: days_in_month_def)

lemma minus_one_day_yesterday:
  assumes v: "valid_datetime d" and nf: "\<not> (year d = 1 \<and> month d = 1 \<and> day d = 1)"
  shows "\<exists>y. minus_one_day d = Inr y \<and> valid_datetime y \<and> toordinal y + 1 = toordinal d"
proof -
  consider (day) "1 < day d"
    | (month) "day d = 1" "1 < month d"
    | (year) "day d = 1" "month d = 1" "1 < year d"
    using v nf unfolding valid_datetime_def by linarith
  then show ?thesis
  proof cases
    case day
    let ?y = "d\<lparr>day := day d - 1\<rparr>"
    have "minus_one_day d = Inr ?y" using day by (simp add: minus_one_day_def)
    moreover have "valid_datetime ?y"
      using v day unfolding valid_datetime_def by (simp; linarith)
    moreover have "toordinal ?y + 1 = toordinal d" using day by (simp add: toordinal_def)
    ultimately show ?thesis by blast
  next
    case month
    let ?y = "d\<lparr>month := month d - 1, day := days_in_month (year d) (month d - 1)\<rparr>"
    have "minus_one_day d = Inr ?y" using month by (simp add: minus_one_day_def)
    moreover have "valid_datetime ?y"
      using v month days_in_month_pos [of "year d" "month d - 1"]
      unfolding valid_datetime_def by (simp; linarith)
    moreover have "toordinal ?y + 1 = toordinal d"
      using month by (simp add: toordinal_def days_before_month_step [of "month d"])
    ultimately show ?thesis by blast
  next
    case year
    let ?y = "d\<lparr>year := year d - 1, month := 12, day := 31\<rparr>"
    from year(3) obtain z where z: "year d = Suc z" "0 < z" by (cases "year d") auto
    have "minus_one_day d = Inr ?y" using year by (simp add: minus_one_day_def)
    moreover have "valid_datetime ?y"
      using v year unfolding valid_datetime_def by (simp add: days_in_month_def; linarith)
    moreover have "toordinal ?y + 1 = toordinal d"
      using year z
      by (simp add: toordinal_def days_before_month_12 days_before_month_1
          days_before_year_Suc)
    ultimately show ?thesis by blast
  qed
qed

lemma days_in_month_le_31: "days_in_month y m \<le> 31"
  by (simp add: days_in_month_def)

lemma strftime_Ymd_formatted:
  assumes "valid_datetime d"
  shows "formatted_Ymd (strftime_Ymd d) d"
proof -
  from assms have y: "year d < 10000" and m: "month d < 100"
    by (simp_all add: valid_datetime_def)
  from assms have "day d \<le> days_in_month (year d) (month d)"
    by (simp add: valid_datetime_def)
  with days_in_month_le_31 [of "year d" "month d"] have dd: "day d < 100" by linarith
  have s: "strftime_Ymd d =
      [digit (year d div 1000 mod 10), digit (year d div 100 mod 10),
       digit (year d div 10 mod 10), digit (year d mod 10), CHR ''-'',
       digit (month d div 10 mod 10), digit (month d mod 10), CHR ''-'',
       digit (day d div 10 mod 10), digit (day d mod 10)]"
    by (simp add: strftime_Ymd_def pad4_def pad2_def)
  have y4: "take 4 (strftime_Ymd d) = pad4 (year d)"
    by (simp add: s pad4_def)
  have m2: "take 2 (drop 5 (strftime_Ymd d)) = pad2 (month d)"
    by (simp add: s pad2_def)
  have d2: "drop 8 (strftime_Ymd d) = pad2 (day d)"
    by (simp add: s pad2_def)
  have digits: "list_all is_digit (pad4 (year d) @ pad2 (month d) @ pad2 (day d))"
    by (simp add: pad4_def pad2_def is_digit_digit)
  have "length (strftime_Ymd d) = 10" by (simp add: s)
  moreover have "strftime_Ymd d ! 4 = CHR ''-''" by (simp add: s)
  moreover have "strftime_Ymd d ! 7 = CHR ''-''" by (simp add: s)
  ultimately show ?thesis
    unfolding formatted_Ymd_def y4 m2 d2
    using digits by (simp add: decimal_pad4 [OF y] decimal_pad2 [OF m] decimal_pad2 [OF dd])
qed

section \<open>Properties of the listing parser\<close>

lemma parse_rows_length:
  "parse_rows mk gs max_articles rows acc (int (length acc)) = Inr res \<Longrightarrow>
   length res \<le> max (length acc + 1) (nat max_articles)"
proof (induction rows arbitrary: acc)
  case Nil
  then show ?case by simp
next
  case (Cons row rows)
  from Cons.prems obtain rnk ttl link scr usr aid ds where
    p: "parse_row row = Inr (rnk, ttl, link, scr, usr, aid, ds)"
    by (cases "parse_row row") (auto split: prod.splits)
  let ?acc = "acc @ [mk rnk ttl link scr usr aid ds gs]"
  show ?case
  proof (cases "int (length acc) + 1 \<ge> max_articles")
    case True
    with Cons.prems p have "res = ?acc" by simp
    then show ?thesis by simp
  next
    case False
    with Cons.prems p have
      "parse_rows mk gs max_articles rows ?acc (int (length ?acc)) = Inr res"
      by (simp add: add.commute)
    from Cons.IH [OF this] have "length res \<le> max (length ?acc + 1) (nat max_articles)" .
    with False show ?thesis by simp
  qed
qed

lemma return_articles_length:
  "return_articles articles_url http_get mk date gs max_articles = Inr res \<Longrightarrow>
   length res \<le> max 1 (nat max_articles)"
proof -
  assume r: "return_articles articles_url http_get mk date gs max_articles = Inr res"
  then obtain rows where
    "parse_rows mk gs max_articles rows [] (int (length ([] :: article list))) = Inr res"
    by (auto simp: return_articles_def split: sum.splits)
  from parse_rows_length [OF this] show ?thesis by simp
qed

lemma return_articles_cap:
  "1 \<le> max_articles \<Longrightarrow>
   return_articles articles_url http_get mk date gs max_articles = Inr res \<Longrightarrow>
   int (length res) \<le> max_articles"
  using return_articles_length [of articles_url http_get mk date gs max_articles res]
  by linarith

lemma last_with_id:
  "R \<noteq> [] \<Longrightarrow> article_id (last R) = x \<Longrightarrow> last (with_id x R) = last R"
  by (cases R rule: rev_cases) (simp_all add: with_id_def)

section \<open>The claims\<close>

text \<open>
  C7. \<open>remove_article_by_id\<close> returns \<open>True\<close> exactly when some article of the collection
  has the given id. In that case exactly one article is removed, the first one with that
  id, and all others stay as they are and in their order; when no article has the id, the
  function returns \<open>False\<close> and the collection is unchanged.
\<close>

theorem remove_article_by_id_reports:
  "(fst (remove_article_by_id C x) \<longleftrightarrow> x \<in> set (ids C)) \<and>
   (x \<notin> set (ids C) \<longrightarrow> remove_article_by_id C x = (False, C)) \<and>
   (x \<in> set (ids C) \<longrightarrow>
      (\<exists>pre a post. C = pre @ a # post \<and> article_id a = x \<and> x \<notin> set (ids pre) \<and>
         remove_article_by_id C x = (True, pre @ post)))"
  using remove_fst_iff [of C x] remove_miss [of x C] remove_hit [of x C] by blast

theorem remove_article_by_id_reports_witness:
  "fst (remove_article_by_id [example_article ''1'' 5, example_article ''2'' 7] ''2'') \<and>
   remove_article_by_id [example_article ''1'' 5, example_article ''2'' 7] ''3'' =
     (False, [example_article ''1'' 5, example_article ''2'' 7])"
  using
    remove_article_by_id_reports [of "[example_article ''1'' 5, example_article ''2'' 7]" "''2''"]
    remove_article_by_id_reports [of "[example_article ''1'' 5, example_article ''2'' 7]" "''3''"]
  by (simp add: ids_def example_article_def)

text \<open>
  C1. A collection is a list of articles with pairwise distinct ids (the invariant of the
  data model, which merging and trimming preserve). For every collection, every batch of
  new articles and every id that occurs both in the collection and in the batch, the
  merged collection holds exactly one article with that id, and it is the batch's
  article with that id (the last one, should the batch hold several).
\<close>

theorem merge_dedupe:
  assumes "distinct (ids C)" and "x \<in> set (ids C)" and "x \<in> set (ids R)"
  shows "with_id x (merge_articles C R) = [last (with_id x R)] \<and>
         last (with_id x R) \<in> set R \<and> article_id (last (with_id x R)) = x"
proof -
  from assms(1,2) have once: "length (with_id x C) \<le> 1"
    by (simp add: distinct_ids_with_id)
  from assms(3) have ne: "with_id x R \<noteq> []" by (simp add: with_id_empty_iff)
  then have "last (with_id x R) \<in> set (with_id x R)" by (rule last_in_set)
  then have "last (with_id x R) \<in> set R \<and> article_id (last (with_id x R)) = x"
    by (simp add: with_id_def)
  moreover have "with_id x (merge_articles C R) = [last (with_id x R)]"
    using once assms(3) by (rule with_id_merge_latest)
  ultimately show ?thesis by simp
qed

theorem merge_dedupe_witness:
  "with_id ''1'' (merge_articles [example_article ''1'' 5, example_article ''2'' 7]
     [example_article ''1'' 9]) = [example_article ''1'' 9]"
  using merge_dedupe [of "[example_article ''1'' 5, example_article ''2'' 7]" "''1''"
      "[example_article ''1'' 9]"]
  by (simp add: ids_def with_id_def example_article_def)

text \<open>
  C5. For every collection (a list of articles with pairwise distinct ids) and every
  batch in which two or more articles share an id, the merged collection holds exactly
  one article with that id, the last one of the batch with it; and when that article is
  the last of the batch, it is the last of the merged collection.
\<close>

theorem merge_duplicate_batch_ids:
  assumes "distinct (ids C)" and "2 \<le> length (with_id x R)"
  shows "with_id x (merge_articles C R) = [last (with_id x R)] \<and>
         (article_id (last R) = x \<longrightarrow>
            last (with_id x R) = last R \<and> last (merge_articles C R) = last R)"
proof -
  from assms(1) have once: "length (with_id x C) \<le> 1"
    by (simp add: distinct_ids_with_id)
  from assms(2) have ne: "with_id x R \<noteq> []" by auto
  then have in_R: "x \<in> set (ids R)" by (simp add: with_id_empty_iff)
  from ne have R_ne: "R \<noteq> []" by (auto simp: with_id_def)
  have one: "with_id x (merge_articles C R) = [last (with_id x R)]"
    using once in_R by (rule with_id_merge_latest)
  have "last (with_id x R) = last R" if "article_id (last R) = x"
    using R_ne that by (rule last_with_id)
  with one R_ne show ?thesis by (simp add: last_merge_articles)
qed

theorem merge_duplicate_batch_ids_witness:
  "with_id ''1'' (merge_articles [example_article ''1'' 5, example_article ''2'' 7]
     [example_article ''1'' 8, example_article ''3'' 4, example_article ''1'' 9])
     = [example_article ''1'' 9] \<and>
   last (merge_articles [example_article ''1'' 5, example_article ''2'' 7]
     [example_article ''1'' 8, example_article ''3'' 4, example_article ''1'' 9])
     = example_article ''1'' 9"
  using merge_duplicate_batch_ids [of
      "[example_article ''1'' 5, example_article ''2'' 7]" "''1''"
      "[example_article ''1'' 8, example_article ''3'' 4, example_article ''1'' 9]"]
  by (simp add: ids_def with_id_def example_article_def)

text \<open>
  C2. For every collection and every non-negative \<open>max_size\<close>, trimming returns normally
  with a collection of at most \<open>max_size\<close> articles, which are the \<open>max_size\<close> most recent
  ones (the last ones of the list) in their order, the evicted ones being the oldest; it
  is empty when \<open>max_size\<close> is 0 and unchanged when the collection was not longer than
  \<open>max_size\<close>.
\<close>

theorem trim_invariant:
  assumes "0 \<le> max_size"
  shows "\<exists>T. trim_article_collection C max_size = Inr T \<and>
           int (length T) \<le> max_size \<and>
           T = most_recent (nat max_size) C \<and>
           length T = min (length C) (nat max_size) \<and>
           take (length C - nat max_size) C @ T = C \<and>
           (max_size = 0 \<longrightarrow> T = []) \<and>
           (int (length C) \<le> max_size \<longrightarrow> T = C)"
proof -
  let ?T = "most_recent (nat max_size) C"
  have "trim_article_collection C max_size = Inr ?T"
    using assms by (simp add: trim_nonneg most_recent_def)
  moreover have "length ?T = min (length C) (nat max_size)"
    by (simp add: most_recent_def)
  moreover have "int (length ?T) \<le> max_size"
    using assms by (simp add: most_recent_def)
  moreover have "take (length C - nat max_size) C @ ?T = C"
    by (simp add: most_recent_def)
  moreover have "max_size = 0 \<longrightarrow> ?T = []"
    by (simp add: most_recent_def)
  moreover have "int (length C) \<le> max_size \<longrightarrow> ?T = C"
    by (simp add: most_recent_def)
  ultimately show ?thesis by blast
qed

theorem trim_invariant_witness:
  "trim_article_collection
     [example_article ''1'' 5, example_article ''2'' 7, example_article ''3'' 4] 2
     = Inr [example_article ''2'' 7, example_article ''3'' 4] \<and>
   trim_article_collection
     [example_article ''1'' 5, example_article ''2'' 7, example_article ''3'' 4] 0 = Inr [] \<and>
   trim_article_collection
     [example_article ''1'' 5, example_article ''2'' 7, example_article ''3'' 4] 3
     = Inr [example_article ''1'' 5, example_article ''2'' 7, example_article ''3'' 4]"
  using
    trim_invariant [of 2 "[example_article ''1'' 5, example_article ''2'' 7, example_article ''3'' 4]"]
    trim_invariant [of 0 "[example_article ''1'' 5, example_article ''2'' 7, example_article ''3'' 4]"]
    trim_invariant [of 3 "[example_article ''1'' 5, example_article ''2'' 7, example_article ''3'' 4]"]
  by (simp add: most_recent_def)

text \<open>
  C3. When the ids of the collection are pairwise distinct, they are so again after the
  merge with any batch; and trimming a collection with pairwise distinct ids returns a
  collection with pairwise distinct ids (it raises only for a negative \<open>max_size\<close>).
\<close>

theorem merge_trim_keep_ids_distinct:
  assumes "distinct (ids C)"
  shows "distinct (ids (merge_articles C R)) \<and>
         (case trim_article_collection C max_size of
            Inl e \<Rightarrow> max_size < 0
          | Inr T \<Rightarrow> distinct (ids T))"
proof -
  have "case trim_article_collection C max_size of
          Inl e \<Rightarrow> max_size < 0 | Inr T \<Rightarrow> distinct (ids T)"
  proof (cases "trim_article_collection C max_size")
    case (Inl e)
    have "\<not> 0 \<le> max_size"
    proof
      assume "0 \<le> max_size"
      from trim_nonneg [OF this, of C] Inl show False by simp
    qed
    with Inl show ?thesis by simp
  next
    case (Inr T)
    from trim_is_drop [OF Inr] obtain k where "T = drop k C" ..
    with assms have "distinct (ids T)"
      by (simp add: ids_def drop_map [symmetric] distinct_drop)
    with Inr show ?thesis by simp
  qed
  with assms show ?thesis by (simp add: distinct_ids_merge_articles)
qed

theorem merge_trim_keep_ids_distinct_witness:
  "distinct (ids (merge_articles [example_article ''1'' 5, example_article ''2'' 7]
     [example_article ''1'' 9, example_article ''3'' 4])) \<and>
   distinct (ids [example_article ''2'' 7])"
  using merge_trim_keep_ids_distinct [of "[example_article ''1'' 5, example_article ''2'' 7]"
      "[example_article ''1'' 9, example_article ''3'' 4]" 1]
  by (simp add: ids_def example_article_def)

text \<open>
  C10. When the ids of the collection are pairwise distinct, the merged collection begins
  with the articles of the old collection whose id does not occur in the batch,
  unchanged and in their old order; everything after them comes from the batch.
\<close>

theorem merge_untouched_stable:
  assumes "distinct (ids C)"
  shows "merge_articles C R = filter (\<lambda>a. article_id a \<notin> set (ids R)) C @ latest R \<and>
         set (latest R) \<subseteq> set R"
  using assms by (simp add: merge_articles_shape set_latest_subset)

theorem merge_untouched_stable_witness:
  "merge_articles [example_article ''1'' 5, example_article ''2'' 7, example_article ''3'' 4]
     [example_article ''2'' 9, example_article ''4'' 1]
   = [example_article ''1'' 5, example_article ''3'' 4, example_article ''2'' 9,
      example_article ''4'' 1]"
  using merge_untouched_stable
    [of "[example_article ''1'' 5, example_article ''2'' 7, example_article ''3'' 4]"
        "[example_article ''2'' 9, example_article ''4'' 1]"]
  by (simp add: ids_def example_article_def)

text \<open>
  C4. When the ids of the collection are pairwise distinct and every article of the batch
  is an article of the collection (same id, same content), the merged collection is as
  long as the old one and consists of the articles that are not in the batch, in their
  old order, followed by the articles of the batch in the order of the batch (of their
  last occurrences, should the batch repeat an article).
\<close>

theorem merge_identical_refetch:
  assumes "distinct (ids C)" and "set R \<subseteq> set C"
  shows "length (merge_articles C R) = length C \<and>
         merge_articles C R = filter (\<lambda>a. a \<notin> set R) C @ remdups R \<and>
         (distinct R \<longrightarrow> merge_articles C R = filter (\<lambda>a. a \<notin> set R) C @ R)"
proof -
  from assms(1) have dC: "distinct C" and inj: "inj_on article_id (set C)"
    by (simp_all add: ids_def distinct_map)
  from inj assms(2) have injR: "inj_on article_id (set R)" by (rule inj_on_subset)
  have same_filter:
    "filter (\<lambda>a. article_id a \<notin> set (ids R)) C = filter (\<lambda>a. a \<notin> set R) C"
  proof (rule filter_cong [OF refl])
    fix a assume a: "a \<in> set C"
    show "(article_id a \<notin> set (ids R)) = (a \<notin> set R)"
    proof -
      have "a \<in> set R" if "article_id a \<in> article_id ` set R"
      proof -
        from that obtain r where r: "r \<in> set R" "article_id a = article_id r" by auto
        with assms(2) have "r \<in> set C" by auto
        with inj a r(2) have "a = r" by (auto dest: inj_onD)
        with r(1) show ?thesis by simp
      qed
      then show ?thesis by (auto simp: ids_def)
    qed
  qed
  have shape: "merge_articles C R = filter (\<lambda>a. a \<notin> set R) C @ remdups R"
    using merge_articles_shape [OF assms(1), of R] same_filter latest_remdups [OF injR]
    by simp
  have "length (filter (\<lambda>a. a \<in> set R) C) = card (set R \<inter> set C)"
    using dC by (simp add: distinct_length_filter Collect_mem_eq)
  also from assms(2) have "set R \<inter> set C = set R" by auto
  finally have "length (filter (\<lambda>a. a \<in> set R) C) = length (remdups R)"
    by (simp add: length_remdups_card_conv)
  with sum_length_filter_compl [of "\<lambda>a. a \<in> set R" C]
  have len: "length (filter (\<lambda>a. a \<notin> set R) C) + length (remdups R) = length C"
    by simp
  from shape len show ?thesis by (simp add: distinct_remdups_id)
qed

theorem merge_identical_refetch_witness:
  "merge_articles [example_article ''1'' 5, example_article ''2'' 7, example_article ''3'' 4]
     [example_article ''2'' 7, example_article ''1'' 5]
   = [example_article ''3'' 4, example_article ''2'' 7, example_article ''1'' 5] \<and>
   length (merge_articles
     [example_article ''1'' 5, example_article ''2'' 7, example_article ''3'' 4]
     [example_article ''2'' 7, example_article ''1'' 5]) = 3"
  using merge_identical_refetch
    [of "[example_article ''1'' 5, example_article ''2'' 7, example_article ''3'' 4]"
        "[example_article ''2'' 7, example_article ''1'' 5]"]
  by (simp add: ids_def example_article_def)

text \<open>
  C6. When the option \<open>override_date\<close> is present and not empty (a non-empty string, or
  any other value that Python counts as true), \<open>get_date\<close> returns it as it is, whatever
  the clock says. When the option is absent or empty (the empty string in particular),
  \<open>get_date\<close> returns the day before the clock's date, formatted as \<open>YYYY-MM-DD\<close> (for
  a clock after the year 1000).
\<close>

theorem get_date_resolution:
  "(settings ''override_date'' = Some v \<and> truthy v \<longrightarrow> get_date settings now = Inr v) \<and>
   (settings ''override_date'' = Some (JString s) \<and> s \<noteq> [] \<longrightarrow>
      get_date settings now = Inr (JString s)) \<and>
   ((settings ''override_date'' = None \<or> settings ''override_date'' = Some (JString []) \<or>
     (settings ''override_date'' = Some v \<and> \<not> truthy v)) \<and>
    valid_datetime now \<and> 1000 < year now \<longrightarrow>
      (\<exists>y. minus_one_day now = Inr y \<and> valid_datetime y \<and> 1000 \<le> year y \<and>
           toordinal y + 1 = toordinal now \<and>
           get_date settings now = Inr (JString (strftime_Ymd y)) \<and>
           formatted_Ymd (strftime_Ymd y) y))"
proof (intro conjI impI)
  assume "settings ''override_date'' = Some v \<and> truthy v"
  then show "get_date settings now = Inr v"
    by (cases v) (auto simp: get_date_def)
next
  assume "settings ''override_date'' = Some (JString s) \<and> s \<noteq> []"
  then show "get_date settings now = Inr (JString s)"
    by (simp add: get_date_def)
next
  assume a: "(settings ''override_date'' = None \<or>
      settings ''override_date'' = Some (JString []) \<or>
      (settings ''override_date'' = Some v \<and> \<not> truthy v)) \<and>
      valid_datetime now \<and> 1000 < year now"
  then have "\<not> (year now = 1 \<and> month now = 1 \<and> day now = 1)" by simp
  with a minus_one_day_yesterday [of now] obtain y where
    y: "minus_one_day now = Inr y" "valid_datetime y" "toordinal y + 1 = toordinal now"
    by blast
  from y(1) have "year now - 1 \<le> year y"
    by (auto simp: minus_one_day_def split: if_splits)
  with a have yr: "1000 \<le> year y" by linarith
  from a y(1) have "get_date settings now = Inr (JString (strftime_Ymd y))"
    by (auto simp: get_date_def)
  moreover from y(2) have "formatted_Ymd (strftime_Ymd y) y"
    by (rule strftime_Ymd_formatted)
  ultimately show "\<exists>y. minus_one_day now = Inr y \<and> valid_datetime y \<and> 1000 \<le> year y \<and>
      toordinal y + 1 = toordinal now \<and>
      get_date settings now = Inr (JString (strftime_Ymd y)) \<and>
      formatted_Ymd (strftime_Ymd y) y"
    using y yr by blast
qed

theorem get_date_resolution_witness:
  "get_date [''override_date'' \<mapsto> JString ''2024-01-15''] example_now
     = Inr (JString ''2024-01-15'') \<and>
   get_date Map.empty example_now = Inr (JString ''2024-02-29'') \<and>
   get_date [''override_date'' \<mapsto> JString []] example_now = Inr (JString ''2024-02-29'')"
  using
    get_date_resolution [of "[''override_date'' \<mapsto> JString ''2024-01-15'']"
      "JString ''2024-01-15''" example_now "''2024-01-15''"]
    get_date_resolution [of Map.empty JNull example_now "''x''"]
    get_date_resolution [of "[''override_date'' \<mapsto> JString []]" "JString []" example_now "''x''"]
  by (simp add: get_date_def example_now_def minus_one_day_def days_in_month_def is_leap_def
      valid_datetime_def strftime_Ymd_def pad4_def pad2_def digit_def)

text \<open>
  C8. The claim is that \<open>return_articles\<close> returns at most \<open>max_articles\<close> articles, none
  when \<open>max_articles\<close> is 0. The loop compares the count with \<open>max_articles\<close> only after
  it has appended an article: on a page of two rows and with \<open>max_articles = 0\<close> it
  returns the article of the first row.
\<close>

theorem return_articles_zero_cap:
  "return_articles ''https://news.ycombinator.com/front?day=''
     (\<lambda>url. Inr [example_row ''101'', example_row ''102''])
     example_constructor ''2024-01-15'' True 0
   = Inr [example_constructor ''1'' ''A title'' ''https://example.org/'' ''5 points'' ''pg''
            ''101'' ''2024-01-15T10:00:00'' True]"
  by (simp add: return_articles_def fetch_soup_def parse_row_def example_row_def strip_def
      is_space_def remove_dots_def first_field_def)

end
